theory Spec2Isabelle
  imports Main
begin

section \<open>Python strings and integers\<close>

text \<open>
  A Python \<open>str\<close> is modelled as a \<^typ>\<open>string\<close>: a list of characters with code points
  below 256. \<open>"Not Defined"\<close> is the value the lookups of \<open>core.py\<close> return when they
  cannot produce an address or a place name.
\<close>

definition not_defined :: string where
  "not_defined = ''Not Defined''"

definition LF :: char where "LF = CHR 0x0A"
definition CR :: char where "CR = CHR 0x0D"
definition DQUOTE :: char where "DQUOTE = CHR 0x22"
definition BACKSLASH :: char where "BACKSLASH = CHR 0x5C"

definition digit_char :: "nat \<Rightarrow> char" where
  "digit_char d = ''0123456789abcdef'' ! (d mod 16)"

text \<open>\<open>str(n)\<close> of a Python integer: decimal digits, a minus sign for a negative number.\<close>

fun str_nat :: "nat \<Rightarrow> string" where
  "str_nat n = (if n < 10 then [digit_char n] else str_nat (n div 10) @ [digit_char (n mod 10)])"

declare str_nat.simps [simp del]

definition str_int :: "int \<Rightarrow> string" where
  "str_int i = (if i < 0 then CHR ''-'' # str_nat (nat (- i)) else str_nat (nat i))"

text \<open>
  Turning an integer of more than 4300 decimal digits into a string raises \<open>ValueError\<close>
  (the default of \<open>sys.set_int_max_str_digits\<close>).
\<close>

definition str_digits_ok :: "int \<Rightarrow> bool" where
  "str_digits_ok i = (length (str_nat (nat \<bar>i\<bar>)) \<le> 4300)"

definition digits_error :: string where
  "digits_error =
     ''Exceeds the limit (4300 digits) for integer string conversion; use sys.set_int_max_str_digits() to increase the limit''"

text \<open>
  \<open>str.isspace\<close> on code points below 256, and \<open>str.strip()\<close> with no argument, which
  removes the whitespace at both ends.
\<close>

definition is_space :: "char \<Rightarrow> bool" where
  "is_space c = (let n = (of_char c :: nat)
                 in (9 \<le> n \<and> n \<le> 13) \<or> (28 \<le> n \<and> n \<le> 32) \<or> n = 133 \<or> n = 160)"

definition strip :: "string \<Rightarrow> string" where
  "strip s = rev (dropWhile is_space (rev (dropWhile is_space s)))"

text \<open>
  \<open>xs[i:]\<close>: a negative start counts from the end, and a start outside the list is
  clamped to it.
\<close>

definition py_slice_from :: "int \<Rightarrow> 'a list \<Rightarrow> 'a list" where
  "py_slice_from i xs =
     (if i < 0 then drop (nat (int (length xs) + i)) xs else drop (nat i) xs)"


section \<open>database/models.py\<close>

record AppConfig =
  tor_socks_proxy :: string
  tor_control_port :: int
  log_enabled :: bool
  log_file :: string
  telegram_enabled :: bool
  telegram_bot_token :: string
  telegram_chat_id :: string
  virustotal_enabled :: bool
  virustotal_api_key :: string
  block_suspicious_urls :: bool

text \<open>The field \<open>note\<close> of the source is \<open>note_text\<close> here (\<open>note\<close> is an Isar keyword).\<close>

record ChangeResult =
  timestamp :: string
  real_ip :: string
  old_tor_ip :: string
  new_tor_ip :: string
  old_country :: string
  old_city :: string
  new_country :: string
  new_city :: string
  changed :: bool
  note_text :: string

record URLReputationResult =
  url :: string
  is_safe :: bool
  threat_level :: string
  threat_count :: int
  analysis_date :: string
  details :: string


section \<open>database/logging.py\<close>

text \<open>
  The file system maps a path to the text of the file there; \<open>None\<close> is a path for which
  \<open>os.path.exists\<close> is false. Every function that touches a file takes a flag \<open>io_ok\<close>:
  when it is false the file operation of this call raises (permission denied, the path is a
  directory, undecodable bytes) and the function runs its \<open>except\<close> branch; a write that
  raises leaves the file as it was.
\<close>

type_synonym filesystem = "string \<Rightarrow> string option"

text \<open>
  The dictionary \<open>log_entry\<close> that \<open>append_log\<close> builds holds strings and one boolean, in
  this order of keys.
\<close>

datatype jvalue = JStr string | JBool bool

type_synonym jdict = "(string \<times> jvalue) list"

definition log_entry :: "ChangeResult \<Rightarrow> jdict" where
  "log_entry result =
     [(''timestamp'', JStr (timestamp result)),
      (''real_ip'', JStr (real_ip result)),
      (''old_tor_ip'', JStr (old_tor_ip result)),
      (''new_tor_ip'', JStr (new_tor_ip result)),
      (''old_country'', JStr (old_country result)),
      (''old_city'', JStr (old_city result)),
      (''new_country'', JStr (new_country result)),
      (''new_city'', JStr (new_city result)),
      (''changed'', JBool (changed result)),
      (''note'', JStr (note_text result))]"

text \<open>
  \<open>json.dumps(d, ensure_ascii=False)\<close> of the standard library on such a dictionary: the
  members in order, separated by \<open>", "\<close>, key and value by \<open>": "\<close>; in a string the
  quote, the backslash and the control characters are escaped and every other character
  is written as it is.
\<close>

definition json_escape_char :: "char \<Rightarrow> string" where
  "json_escape_char c =
     (if c = DQUOTE then [BACKSLASH, DQUOTE]
      else if c = BACKSLASH then [BACKSLASH, BACKSLASH]
      else if c = LF then [BACKSLASH, CHR ''n'']
      else if c = CR then [BACKSLASH, CHR ''r'']
      else if c = CHR 0x09 then [BACKSLASH, CHR ''t'']
      else if c = CHR 0x08 then [BACKSLASH, CHR ''b'']
      else if c = CHR 0x0C then [BACKSLASH, CHR ''f'']
      else if (of_char c :: nat) < 32
        then [BACKSLASH, CHR ''u'', CHR ''0'', CHR ''0'',
              digit_char ((of_char c :: nat) div 16), digit_char ((of_char c :: nat) mod 16)]
      else [c])"

definition json_string :: "string \<Rightarrow> string" where
  "json_string s = DQUOTE # concat (map json_escape_char s) @ [DQUOTE]"

fun json_value :: "jvalue \<Rightarrow> string" where
  "json_value (JStr s) = json_string s"
| "json_value (JBool b) = (if b then ''true'' else ''false'')"

definition json_member :: "string \<times> jvalue \<Rightarrow> string" where
  "json_member kv = json_string (fst kv) @ '': '' @ json_value (snd kv)"

fun json_members :: "jdict \<Rightarrow> string" where
  "json_members [] = []"
| "json_members [kv] = json_member kv"
| "json_members (kv # rest) = json_member kv @ '', '' @ json_members rest"

definition json_dumps :: "jdict \<Rightarrow> string" where
  "json_dumps d = CHR ''{'' # json_members d @ ''}''"

definition append_log :: "AppConfig \<Rightarrow> ChangeResult \<Rightarrow> bool \<Rightarrow> filesystem \<Rightarrow> filesystem" where
  "append_log config result io_ok fs =
     (if \<not> log_enabled config then fs
      else if \<not> io_ok then fs
      else fs(log_file config \<mapsto>
                (case fs (log_file config) of None \<Rightarrow> [] | Some old \<Rightarrow> old)
                @ json_dumps (log_entry result) @ [LF]))"

text \<open>
  Reading a text file opened with \<open>open(path, "r")\<close>: the line ends \<open>\r\n\<close> and \<open>\r\<close> are
  translated to \<open>\n\<close>, and \<open>for line in f\<close> yields the lines with their \<open>\n\<close>, the last one
  without when the file does not end with one.
\<close>

fun universal_newlines :: "string \<Rightarrow> string" where
  "universal_newlines [] = []"
| "universal_newlines [c] = (if c = CR then [LF] else [c])"
| "universal_newlines (c # d # cs) =
     (if c = CR \<and> d = LF then LF # universal_newlines cs
      else if c = CR then LF # universal_newlines (d # cs)
      else c # universal_newlines (d # cs))"

fun file_lines :: "string \<Rightarrow> string list" where
  "file_lines [] = []"
| "file_lines (c # cs) =
     (if c = LF then [LF] # file_lines cs
      else (case file_lines cs of [] \<Rightarrow> [[c]] | l # ls \<Rightarrow> (c # l) # ls))"

text \<open>
  The loop of \<open>read_last_logs\<close> over the lines. \<open>json.loads\<close> is the parameter \<open>loads\<close>:
  \<open>None\<close> when it raises on the line.
\<close>

fun read_items :: "(string \<Rightarrow> 'j option) \<Rightarrow> string list \<Rightarrow> 'j list \<Rightarrow> 'j list" where
  "read_items loads [] items = items"
| "read_items loads (l # ls) items =
     (let line = strip l
      in if line = [] then read_items loads ls items
         else (case loads line of
                 Some v \<Rightarrow> read_items loads ls (items @ [v])
               | None \<Rightarrow> read_items loads ls items))"

definition read_last_logs ::
  "(string \<Rightarrow> 'j option) \<Rightarrow> bool \<Rightarrow> filesystem \<Rightarrow> string \<Rightarrow> int \<Rightarrow> 'j list" where
  "read_last_logs loads io_ok fs path limit =
     (case fs path of
        None \<Rightarrow> []
      | Some content \<Rightarrow>
          if \<not> io_ok then []
          else rev (py_slice_from (- limit)
                      (read_items loads (file_lines (universal_newlines content)) [])))"

definition clear_logs :: "bool \<Rightarrow> filesystem \<Rightarrow> string \<Rightarrow> bool \<times> filesystem" where
  "clear_logs io_ok fs path =
     (case fs path of
        None \<Rightarrow> (True, fs)
      | Some content \<Rightarrow> if io_ok then (True, fs(path := None)) else (False, fs))"


section \<open>core.py\<close>

text \<open>
  \<open>get_location_for_ip\<close>: the reply of the lookup service is \<open>GeoRaises\<close> when the request
  or the parsing of its body raises, and otherwise the status code with the values of
  \<open>country_name\<close> and \<open>city\<close> (\<open>None\<close> for a missing key or \<open>null\<close>).
\<close>

datatype geo_reply = GeoRaises | GeoReply int "string option" "string option"

definition or_not_defined :: "string option \<Rightarrow> string" where
  "or_not_defined v = (case v of None \<Rightarrow> not_defined | Some s \<Rightarrow> if s = [] then not_defined else s)"

definition get_location_for_ip :: "string \<Rightarrow> geo_reply \<Rightarrow> string \<times> string" where
  "get_location_for_ip ip reply =
     (if ip = [] \<or> ip = not_defined then (not_defined, not_defined)
      else (case reply of
              GeoRaises \<Rightarrow> (not_defined, not_defined)
            | GeoReply status country city \<Rightarrow>
                if status = 200 then (or_not_defined country, or_not_defined city)
                else (not_defined, not_defined)))"

text \<open>
  \<open>tor_newnym\<close>: the outcome of the control connection is \<open>None\<close> when connecting,
  authenticating and signalling all succeed, and \<open>Some cause\<close> when one of them raises an
  exception \<open>e\<close> with \<open>str(e) = cause\<close>. The function then raises an exception with its
  own message, \<open>control_error\<close>; formatting the port into that message raises instead when
  the port has too many digits.
\<close>

definition control_error :: "int \<Rightarrow> string \<Rightarrow> string" where
  "control_error control_port cause =
     (if str_digits_ok control_port
        then ''Failed to connect to Tor control port '' @ str_int control_port @ '': '' @ cause
      else digits_error)"

definition tor_newnym :: "int \<Rightarrow> string option \<Rightarrow> string + unit" where
  "tor_newnym control_port outcome =
     (case outcome of
        None \<Rightarrow> Inr ()
      | Some cause \<Rightarrow> Inl (control_error control_port cause))"


section \<open>worker.py\<close>

record ChangeWorker =
  config :: AppConfig
  wait_seconds :: int
  retries :: int

text \<open>
  What one run of the worker meets outside the program: the answers of \<open>get_real_ip\<close> and
  of the first \<open>get_tor_ip\<close>, for the iteration \<open>k\<close> of the retry loop (\<open>attempt = k\<close>) the
  outcome of \<open>tor_newnym\<close> and the answer of \<open>get_tor_ip\<close>, the replies of the two location
  lookups, the clock, and whether the write to the log file succeeds.
\<close>

record world =
  real_ip_seen :: string
  tor_ip_before :: string
  newnym_outcome :: "nat \<Rightarrow> string option"
  tor_ip_after :: "nat \<Rightarrow> string"
  geo_before :: geo_reply
  geo_after :: geo_reply
  clock :: string
  log_io_ok :: bool

definition unchanged_note :: string where
  "unchanged_note = ''Circuit refreshed but exit IP may stay the same (normal sometimes).''"

text \<open>
  The variables of the loop, and the number of \<open>tor_newnym\<close> calls made so far (a counter
  the source does not hold, kept to state how often the signal is sent).
\<close>

record loop_state =
  new_ip :: string
  note_var :: string
  signals :: nat

text \<open>
  How the loop ends: an exception leaves it, \<open>break\<close> leaves it at iteration \<open>attempt\<close>, or
  \<open>range(retries + 1)\<close> is exhausted.
\<close>

datatype loop_exit = Raised string loop_state | Broke nat loop_state | Exhausted loop_state

text \<open>
  \<open>time.sleep(secs)\<close> on an integer: the seconds are converted to a 64-bit count of
  nanoseconds, which raises \<open>OverflowError\<close> beyond 9223372036 seconds in either direction;
  a negative argument that converts raises \<open>ValueError\<close>. The result is \<open>None\<close> when the
  call returns and the message of the exception otherwise (the messages of CPython 3.11).
\<close>

definition time_sleep :: "int \<Rightarrow> string option" where
  "time_sleep secs =
     (if secs < - 9223372036 \<or> 9223372036 < secs
        then Some ''timestamp too large to convert to C _PyTime_t''
      else if secs < 0 then Some ''sleep length must be non-negative''
      else None)"

fun retry_loop :: "ChangeWorker \<Rightarrow> world \<Rightarrow> string \<Rightarrow> nat \<Rightarrow> nat \<Rightarrow> loop_state \<Rightarrow> loop_exit" where
  "retry_loop w env old_ip 0 attempt st = Exhausted st"
| "retry_loop w env old_ip (Suc left) attempt st =
     (let st1 = st\<lparr>signals := Suc (signals st)\<rparr>
      in case tor_newnym (tor_control_port (config w)) (newnym_outcome env attempt) of
           Inl msg \<Rightarrow> Raised msg st1
         | Inr _ \<Rightarrow>
             (case time_sleep (wait_seconds w) of
                Some sleep_msg \<Rightarrow> Raised sleep_msg st1
              | None \<Rightarrow>
                  let st2 = st1\<lparr>new_ip := tor_ip_after env attempt\<rparr>
                  in if new_ip st2 \<noteq> not_defined \<and> new_ip st2 \<noteq> old_ip then Broke attempt st2
                     else retry_loop w env old_ip left (Suc attempt)
                            (st2\<lparr>note_var := unchanged_note\<rparr>)))"

definition exit_state :: "loop_exit \<Rightarrow> loop_state" where
  "exit_state e = (case e of Raised msg st \<Rightarrow> st | Broke k st \<Rightarrow> st | Exhausted st \<Rightarrow> st)"

text \<open>
  \<open>ChangeWorker.run\<close>. It emits \<open>done\<close> with the result or \<open>failed\<close> with the message of the
  exception; beside the emitted signal the model returns the number of \<open>tor_newnym\<close>
  calls, the iteration of the \<open>break\<close> if there was one, and the file system after the run.
  The Telegram notification has no effect on any of these (\<open>send_telegram_notification\<close>
  swallows its exceptions) and is left out.
\<close>

datatype emitted = Done ChangeResult | Failed string

record run_out =
  signal :: emitted
  newnym_calls :: nat
  break_at :: "nat option"
  fs_after :: filesystem

definition run :: "ChangeWorker \<Rightarrow> world \<Rightarrow> filesystem \<Rightarrow> run_out" where
  "run w env fs =
     (let real = real_ip_seen env;
          old_ip = tor_ip_before env;
          (old_country_v, old_city_v) = get_location_for_ip old_ip (geo_before env)
      in case retry_loop w env old_ip (nat (retries w + 1)) 0
                \<lparr>new_ip = old_ip, note_var = [], signals = 0\<rparr> of
           Raised msg st \<Rightarrow>
             \<lparr>signal = Failed msg, newnym_calls = signals st, break_at = None, fs_after = fs\<rparr>
         | ended \<Rightarrow>
             (let st = exit_state ended;
                  (new_country_v, new_city_v) = get_location_for_ip (new_ip st) (geo_after env);
                  changed_v = (new_ip st \<noteq> not_defined \<and> old_ip \<noteq> not_defined
                               \<and> new_ip st \<noteq> old_ip);
                  res = \<lparr>timestamp = clock env, real_ip = real, old_tor_ip = old_ip,
                         new_tor_ip = new_ip st, old_country = old_country_v,
                         old_city = old_city_v, new_country = new_country_v,
                         new_city = new_city_v, changed = changed_v,
                         note_text = note_var st\<rparr>
              in \<lparr>signal = Done res, newnym_calls = signals st,
                  break_at = (case ended of Broke k _ \<Rightarrow> Some k | _ \<Rightarrow> None),
                  fs_after = append_log (config w) res (log_io_ok env) fs\<rparr>))"


section \<open>network.py\<close>

text \<open>
  An HTTP call of \<open>check_url_reputation\<close> either raises \<open>requests.exceptions.Timeout\<close>,
  raises another exception \<open>e\<close> (the argument is \<open>str(e)\<close>), or returns a response with a
  status code and a body. The body is read only on status 200: from the submission's body
  the code takes \<open>["data"]["id"]\<close> and from the analysis's body \<open>["data"]["attributes"]["stats"]\<close>,
  of which it reads the keys \<open>malicious\<close>, \<open>suspicious\<close> and \<open>undetected\<close> with \<open>.get(key, 0)\<close>.
  A body is \<open>Inl msg\<close> when reading it this way raises an exception with message \<open>msg\<close>.
  The analysis is requested for the identifier the submission returned.
\<close>

datatype 'a http = HttpTimeout | HttpRaises string | HttpResponse int "string + 'a"

type_synonym stats = "string \<Rightarrow> int option"

definition stats_get :: "stats \<Rightarrow> string \<Rightarrow> int" where
  "stats_get st key = (case st key of None \<Rightarrow> 0 | Some v \<Rightarrow> v)"

definition timeout_result :: "string \<Rightarrow> URLReputationResult" where
  "timeout_result u =
     \<lparr>url = u, is_safe = False, threat_level = ''error'', threat_count = 0,
      analysis_date = [], details = ''VirusTotal API timeout''\<rparr>"

definition exception_result :: "string \<Rightarrow> string \<Rightarrow> URLReputationResult" where
  "exception_result u msg =
     \<lparr>url = u, is_safe = False, threat_level = ''error'', threat_count = 0,
      analysis_date = [], details = ''Error checking reputation: '' @ msg\<rparr>"

text \<open>
  The result is \<open>None\<close> where the function reaches its end without a \<open>return\<close> statement
  (Python then returns \<open>None\<close>, which is no \<open>URLReputationResult\<close>).
\<close>

definition check_url_reputation ::
  "string \<Rightarrow> string \<Rightarrow> string http \<Rightarrow> (string \<Rightarrow> stats http) \<Rightarrow> string
   \<Rightarrow> URLReputationResult option" where
  "check_url_reputation u api_key submission analysis now =
     (if api_key = [] \<or> u = [] then
        Some \<lparr>url = u, is_safe = False, threat_level = ''unknown'', threat_count = 0,
              analysis_date = [], details = ''API key is missing''\<rparr>
      else
        (case submission of
           HttpTimeout \<Rightarrow> Some (timeout_result u)
         | HttpRaises msg \<Rightarrow> Some (exception_result u msg)
         | HttpResponse status body \<Rightarrow>
             if status \<noteq> 200 then
               Some \<lparr>url = u, is_safe = False, threat_level = ''error'', threat_count = 0,
                     analysis_date = [],
                     details = ''VirusTotal API error: '' @ str_int status\<rparr>
             else
               (case body of
                  Inl msg \<Rightarrow> Some (exception_result u msg)
                | Inr analysis_id \<Rightarrow>
                    (case analysis analysis_id of
                       HttpTimeout \<Rightarrow> Some (timeout_result u)
                     | HttpRaises msg \<Rightarrow> Some (exception_result u msg)
                     | HttpResponse analysis_status analysis_body \<Rightarrow>
                         if analysis_status = 200 then
                           (case analysis_body of
                              Inl msg \<Rightarrow> Some (exception_result u msg)
                            | Inr st \<Rightarrow>
                                (let count = stats_get st ''malicious'' + stats_get st ''suspicious'';
                                     level = (if stats_get st ''malicious'' > 0 then ''malicious''
                                              else if stats_get st ''suspicious'' > 0 then ''suspicious''
                                              else ''clean'');
                                     safe = (level = ''clean'');
                                     text = ''Malicious: '' @ str_int (stats_get st ''malicious'')
                                            @ '' | Suspicious: '' @ str_int (stats_get st ''suspicious'')
                                            @ '' | Clean: '' @ str_int (stats_get st ''undetected'')
                                 in Some \<lparr>url = u, is_safe = safe, threat_level = level,
                                          threat_count = count, analysis_date = now,
                                          details = text\<rparr>))
                         else None))))"


section \<open>A decoder for the records of the log\<close>

text \<open>
  \<open>json_loads_flat\<close> decodes one JSON object whose values are strings, \<open>true\<close> or \<open>false\<close>,
  the shape of every record \<open>append_log\<close> writes, and is \<open>None\<close> on any other text. It
  stands for \<open>json.loads\<close> on the lines of a log that \<open>append_log\<close> wrote; the facts about
  \<open>read_last_logs\<close> that do not depend on what a line decodes to take the decoder as a
  parameter.
\<close>

definition json_ws :: "char \<Rightarrow> bool" where
  "json_ws c = (c = CHR '' '' \<or> c = CHR 0x09 \<or> c = LF \<or> c = CR)"

definition hex_val :: "char \<Rightarrow> nat option" where
  "hex_val c =
     (let n = (of_char c :: nat)
      in if 48 \<le> n \<and> n \<le> 57 then Some (n - 48)
         else if 97 \<le> n \<and> n \<le> 102 then Some (n - 87)
         else if 65 \<le> n \<and> n \<le> 70 then Some (n - 55)
         else None)"

definition hex4 :: "char \<Rightarrow> char \<Rightarrow> char \<Rightarrow> char \<Rightarrow> nat option" where
  "hex4 a b c d =
     (case (hex_val a, hex_val b, hex_val c, hex_val d) of
        (Some x, Some y, Some z, Some t) \<Rightarrow> Some (((x * 16 + y) * 16 + z) * 16 + t)
      | _ \<Rightarrow> None)"

definition unescape :: "char \<Rightarrow> char option" where
  "unescape e =
     (if e = DQUOTE then Some DQUOTE
      else if e = BACKSLASH then Some BACKSLASH
      else if e = CHR ''/'' then Some (CHR ''/'')
      else if e = CHR ''n'' then Some LF
      else if e = CHR ''r'' then Some CR
      else if e = CHR ''t'' then Some (CHR 0x09)
      else if e = CHR ''b'' then Some (CHR 0x08)
      else if e = CHR ''f'' then Some (CHR 0x0C)
      else None)"

definition push_char :: "char \<Rightarrow> (string \<times> string) option \<Rightarrow> (string \<times> string) option" where
  "push_char c r = (case r of None \<Rightarrow> None | Some (s, rest) \<Rightarrow> Some (c # s, rest))"

text \<open>The text after an opening quote: the decoded string and what follows the closing quote.\<close>

fun parse_string_body :: "string \<Rightarrow> (string \<times> string) option" where
  "parse_string_body [] = None"
| "parse_string_body [c] = (if c = DQUOTE then Some ([], []) else None)"
| "parse_string_body (c # e # cs) =
     (if c = DQUOTE then Some ([], e # cs)
      else if c = BACKSLASH then
        (if e = CHR ''u'' then
           (case cs of
              h1 # h2 # h3 # h4 # r \<Rightarrow>
                (case hex4 h1 h2 h3 h4 of
                   Some n \<Rightarrow> if n < 256 then push_char (char_of n) (parse_string_body r) else None
                 | None \<Rightarrow> None)
            | _ \<Rightarrow> None)
         else (case unescape e of
                 Some ch \<Rightarrow> push_char ch (parse_string_body cs)
               | None \<Rightarrow> None))
      else if (of_char c :: nat) < 32 then None
      else push_char c (parse_string_body (e # cs)))"

definition parse_value :: "string \<Rightarrow> (jvalue \<times> string) option" where
  "parse_value s =
     (if take 4 s = ''true'' then Some (JBool True, drop 4 s)
      else if take 5 s = ''false'' then Some (JBool False, drop 5 s)
      else (case s of
              [] \<Rightarrow> None
            | c # cs \<Rightarrow>
                if c = DQUOTE then
                  (case parse_string_body cs of
                     None \<Rightarrow> None
                   | Some (v, rest) \<Rightarrow> Some (JStr v, rest))
                else None))"

text \<open>
  The members after the opening brace, at most \<open>fuel\<close> of them; a text has fewer members
  than characters.
\<close>

fun parse_members :: "nat \<Rightarrow> string \<Rightarrow> jdict \<Rightarrow> (jdict \<times> string) option" where
  "parse_members 0 s acc = None"
| "parse_members (Suc fuel) s acc =
     (case dropWhile json_ws s of
        [] \<Rightarrow> None
      | c # cs \<Rightarrow>
          if c \<noteq> DQUOTE then None
          else
            (case parse_string_body cs of
               None \<Rightarrow> None
             | Some (key, r1) \<Rightarrow>
                 (case dropWhile json_ws r1 of
                    [] \<Rightarrow> None
                  | colon # r2 \<Rightarrow>
                      if colon \<noteq> CHR '':'' then None
                      else
                        (case parse_value (dropWhile json_ws r2) of
                           None \<Rightarrow> None
                         | Some (v, r3) \<Rightarrow>
                             (case dropWhile json_ws r3 of
                                [] \<Rightarrow> None
                              | sep # r4 \<Rightarrow>
                                  if sep = CHR '','' then parse_members fuel r4 (acc @ [(key, v)])
                                  else if sep = CHR ''}'' then Some (acc @ [(key, v)], r4)
                                  else None)))))"

definition json_loads_flat :: "string \<Rightarrow> jdict option" where
  "json_loads_flat s =
     (case dropWhile json_ws s of
        [] \<Rightarrow> None
      | c # cs \<Rightarrow>
          if c \<noteq> CHR ''{'' then None
          else
            (case dropWhile json_ws cs of
               [] \<Rightarrow> None
             | d # ds \<Rightarrow>
                 if d = CHR ''}'' then (if dropWhile json_ws ds = [] then Some [] else None)
                 else
                   (case parse_members (length cs) cs [] of
                      None \<Rightarrow> None
                    | Some (members, rest) \<Rightarrow>
                        if dropWhile json_ws rest = [] then Some members else None)))"


section \<open>Concrete configurations, worlds and logs\<close>

text \<open>The defaults of \<open>AppConfig\<close> in \<open>database/models.py\<close>.\<close>

definition default_config :: AppConfig where
  "default_config =
     \<lparr>tor_socks_proxy = ''socks5h://127.0.0.1:9050'', tor_control_port = 9051,
      log_enabled = True, log_file = ''identity_history.log'', telegram_enabled = False,
      telegram_bot_token = [], telegram_chat_id = [], virustotal_enabled = False,
      virustotal_api_key = [], block_suspicious_urls = True\<rparr>"

definition no_files :: filesystem where
  "no_files = (\<lambda>path. None)"

text \<open>
  A worker with the given number of retries, and a world in which the proxied address is
  \<open>before\<close> at the start and \<open>after k\<close> in iteration \<open>k\<close>, and \<open>tor_newnym\<close> has the outcome
  \<open>outcome k\<close> there.
\<close>

definition worker_with :: "int \<Rightarrow> ChangeWorker" where
  "worker_with r = \<lparr>config = default_config, wait_seconds = 0, retries = r\<rparr>"

definition world_with :: "string \<Rightarrow> (nat \<Rightarrow> string) \<Rightarrow> (nat \<Rightarrow> string option) \<Rightarrow> world" where
  "world_with before after outcome =
     \<lparr>real_ip_seen = ''203.0.113.7'', tor_ip_before = before, newnym_outcome = outcome,
      tor_ip_after = after, geo_before = GeoRaises, geo_after = GeoRaises,
      clock = ''2026-01-01 00:00:00'', log_io_ok = True\<rparr>"

definition always_ok :: "nat \<Rightarrow> string option" where
  "always_ok k = None"

text \<open>The addresses \<open>1.1.1.1, 1.1.1.1, 2.2.2.2\<close>: unchanged in iteration 0, changed in iteration 1.\<close>

definition second_attempt_changes :: "nat \<Rightarrow> string" where
  "second_attempt_changes k = (if k = 0 then ''1.1.1.1'' else ''2.2.2.2'')"

text \<open>The addresses \<open>1.1.1.1, Not Defined, 1.1.1.1\<close>: back at the first address in iteration 1.\<close>

definition back_to_first :: "nat \<Rightarrow> string" where
  "back_to_first k = (if k = 0 then not_defined else ''1.1.1.1'')"

text \<open>No address at the start and in iteration 0, then \<open>2.2.2.2\<close>.\<close>

definition undetermined_then_found :: "nat \<Rightarrow> string" where
  "undetermined_then_found k = (if k = 0 then not_defined else ''2.2.2.2'')"

text \<open>The control connection is refused in iteration 1.\<close>

definition refused_at_second :: "nat \<Rightarrow> string option" where
  "refused_at_second k = (if k = 1 then Some ''Connection refused'' else None)"

definition first_record :: ChangeResult where
  "first_record =
     \<lparr>timestamp = ''2026-01-01 00:00:00'', real_ip = ''203.0.113.7'', old_tor_ip = ''1.1.1.1'',
      new_tor_ip = ''2.2.2.2'', old_country = ''Germany'', old_city = ''Berlin'',
      new_country = ''France'', new_city = ''Paris'', changed = True, note_text = []\<rparr>"

definition second_record :: ChangeResult where
  "second_record =
     \<lparr>timestamp = ''2026-01-01 00:05:00'', real_ip = ''203.0.113.7'', old_tor_ip = ''2.2.2.2'',
      new_tor_ip = ''2.2.2.2'', old_country = ''France'', old_city = ''Paris'',
      new_country = ''France'', new_city = ''Paris'', changed = False,
      note_text = unchanged_note\<rparr>"

definition one_file :: "string \<Rightarrow> string \<Rightarrow> filesystem" where
  "one_file path content = (\<lambda>p. if p = path then Some content else None)"


text \<open>What the worker emits in the world of \<open>second_attempt_changes\<close>.\<close>

definition second_attempt_result :: ChangeResult where
  "second_attempt_result =
     \<lparr>timestamp = ''2026-01-01 00:00:00'', real_ip = ''203.0.113.7'', old_tor_ip = ''1.1.1.1'',
      new_tor_ip = ''2.2.2.2'', old_country = not_defined, old_city = not_defined,
      new_country = not_defined, new_city = not_defined, changed = True,
      note_text = unchanged_note\<rparr>"


text \<open>
  A decoded record agrees with a result in the ten fields of the log format. A text ends
  with a line end when it is empty or its last character is \<open>\n\<close> or \<open>\r\<close>.
\<close>

definition entry_matches :: "jdict \<Rightarrow> ChangeResult \<Rightarrow> bool" where
  "entry_matches d r =
     (map_of d ''timestamp'' = Some (JStr (timestamp r))
      \<and> map_of d ''real_ip'' = Some (JStr (real_ip r))
      \<and> map_of d ''old_tor_ip'' = Some (JStr (old_tor_ip r))
      \<and> map_of d ''new_tor_ip'' = Some (JStr (new_tor_ip r))
      \<and> map_of d ''old_country'' = Some (JStr (old_country r))
      \<and> map_of d ''old_city'' = Some (JStr (old_city r))
      \<and> map_of d ''new_country'' = Some (JStr (new_country r))
      \<and> map_of d ''new_city'' = Some (JStr (new_city r))
      \<and> map_of d ''changed'' = Some (JBool (changed r))
      \<and> map_of d ''note'' = Some (JStr (note_text r)))"

definition ends_with_line_end :: "string \<Rightarrow> bool" where
  "ends_with_line_end s = (s = [] \<or> last s = LF \<or> last s = CR)"

text \<open>The analysis request is answered with status 404.\<close>

definition analysis_not_found :: "string \<Rightarrow> stats http" where
  "analysis_not_found analysis_id = HttpResponse 404 (Inl ''KeyError'')"


section \<open>The retry loop\<close>

text \<open>
  The lemmas about \<open>retry_loop\<close> are stated for a loop that starts at any iteration \<open>a\<close> in
  any state, which is what the induction on the number of remaining iterations needs.
\<close>


lemma time_sleep_returns:
  "time_sleep secs = None \<longleftrightarrow> 0 \<le> secs \<and> secs \<le> 9223372036"
  by (simp add: time_sleep_def)

lemma retry_loop_signals:
  "signals (exit_state (retry_loop w env old n a st)) \<le> signals st + n"
proof (induction n arbitrary: a st)
  case 0
  then show ?case by (simp add: exit_state_def)
next
  case (Suc n)
  have "signals (exit_state (retry_loop w env old n (Suc a)
          (st\<lparr>signals := Suc (signals st), new_ip := tor_ip_after env a,
               note_var := unchanged_note\<rparr>))) \<le> Suc (signals st) + n"
    using Suc.IH[of "Suc a" "st\<lparr>signals := Suc (signals st), new_ip := tor_ip_after env a,
               note_var := unchanged_note\<rparr>"] by simp
  then show ?case
    by (auto simp: exit_state_def Let_def split: sum.splits option.splits)
qed

lemma retry_loop_broke:
  "retry_loop w env old n a st = Broke k st' \<Longrightarrow>
     a \<le> k \<and> k < a + n \<and> tor_ip_after env k \<noteq> not_defined \<and> tor_ip_after env k \<noteq> old
     \<and> (\<forall>j. a \<le> j \<and> j < k \<longrightarrow> tor_ip_after env j = not_defined \<or> tor_ip_after env j = old)
     \<and> (\<forall>j. a \<le> j \<and> j \<le> k \<longrightarrow> newnym_outcome env j = None)
     \<and> new_ip st' = tor_ip_after env k \<and> signals st' = signals st + (k - a) + 1
     \<and> note_var st' = (if k = a then note_var st else unchanged_note)"
proof (induction n arbitrary: a st)
  case 0
  then show ?case by simp
next
  case (Suc n)
  show ?case
  proof (cases "newnym_outcome env a")
    case (Some c)
    with Suc.prems show ?thesis by (simp add: tor_newnym_def Let_def)
  next
    case None
    show ?thesis
    proof (cases "time_sleep (wait_seconds w) = None")
      case False
      with None Suc.prems show ?thesis by (auto simp add: tor_newnym_def Let_def)
    next
      case True
      show ?thesis
      proof (cases "tor_ip_after env a \<noteq> not_defined \<and> tor_ip_after env a \<noteq> old")
        case good: True
        with None True Suc.prems show ?thesis
          by (auto simp add: tor_newnym_def Let_def)
      next
        case nb: False
        with None True Suc.prems
        have rec: "retry_loop w env old n (Suc a)
               (st\<lparr>signals := Suc (signals st), new_ip := tor_ip_after env a,
                    note_var := unchanged_note\<rparr>) = Broke k st'"
          by (auto simp add: tor_newnym_def Let_def)
        from Suc.IH[OF rec] have ih: "Suc a \<le> k" "k < Suc a + n"
          "tor_ip_after env k \<noteq> not_defined" "tor_ip_after env k \<noteq> old"
          "\<forall>j. Suc a \<le> j \<and> j < k \<longrightarrow> tor_ip_after env j = not_defined \<or> tor_ip_after env j = old"
          "\<forall>j. Suc a \<le> j \<and> j \<le> k \<longrightarrow> newnym_outcome env j = None"
          "new_ip st' = tor_ip_after env k" "signals st' = Suc (signals st) + (k - Suc a) + 1"
          "note_var st' = unchanged_note" by (simp_all split: if_splits)
        have "\<And>j. a \<le> j \<Longrightarrow> j < k \<Longrightarrow> tor_ip_after env j = not_defined \<or> tor_ip_after env j = old"
          using ih(5) nb by (metis Suc_leI le_neq_implies_less)
        moreover have "\<And>j. a \<le> j \<Longrightarrow> j \<le> k \<Longrightarrow> newnym_outcome env j = None"
          using ih(6) None by (metis Suc_leI le_neq_implies_less)
        ultimately show ?thesis using ih by auto
      qed
    qed
  qed
qed


lemma retry_loop_reaches_break:
  assumes "time_sleep (wait_seconds w) = None" "a \<le> k" "k < a + n"
    and "\<forall>j. a \<le> j \<and> j \<le> k \<longrightarrow> newnym_outcome env j = None"
    and "tor_ip_after env k \<noteq> not_defined" "tor_ip_after env k \<noteq> old"
    and "\<forall>j. a \<le> j \<and> j < k \<longrightarrow> tor_ip_after env j = not_defined \<or> tor_ip_after env j = old"
  shows "\<exists>st'. retry_loop w env old n a st = Broke k st'"
  using assms
proof (induction n arbitrary: a st)
  case 0
  then show ?case by simp
next
  case (Suc n)
  from Suc.prems(2,4) have nn: "newnym_outcome env a = None" by simp
  show ?case
  proof (cases "k = a")
    case True
    with Suc.prems nn show ?thesis by (simp add: tor_newnym_def Let_def)
  next
    case False
    with Suc.prems have lt: "Suc a \<le> k" "k < Suc a + n" by simp_all
    from False Suc.prems(2,7) have nb: "tor_ip_after env a = not_defined \<or> tor_ip_after env a = old"
      by simp
    have "\<exists>st'. retry_loop w env old n (Suc a)
            (st\<lparr>signals := Suc (signals st), new_ip := tor_ip_after env a,
                 note_var := unchanged_note\<rparr>) = Broke k st'"
      using Suc.IH[of "Suc a" "st\<lparr>signals := Suc (signals st), new_ip := tor_ip_after env a,
                 note_var := unchanged_note\<rparr>"] Suc.prems(1,4,5,6,7) lt by simp
    with nn nb Suc.prems(1) show ?thesis by (auto simp add: tor_newnym_def Let_def)
  qed
qed

lemma retry_loop_reaches_raise:
  assumes "k = a \<or> time_sleep (wait_seconds w) = None" "a \<le> k" "k < a + n"
    and "\<forall>j. a \<le> j \<and> j < k \<longrightarrow> newnym_outcome env j = None"
    and "newnym_outcome env k = Some cause"
    and "\<forall>j. a \<le> j \<and> j < k \<longrightarrow> tor_ip_after env j = not_defined \<or> tor_ip_after env j = old"
  shows "\<exists>st'. retry_loop w env old n a st =
            Raised (control_error (tor_control_port (config w)) cause) st'
          \<and> signals st' = signals st + (k - a) + 1"
  using assms
proof (induction n arbitrary: a st)
  case 0
  then show ?case by simp
next
  case (Suc n)
  show ?case
  proof (cases "k = a")
    case True
    with Suc.prems show ?thesis by (simp add: tor_newnym_def Let_def)
  next
    case False
    with Suc.prems have lt: "Suc a \<le> k" "k < Suc a + n" by simp_all
    from False Suc.prems(2,4) have nn: "newnym_outcome env a = None" by simp
    from False Suc.prems(2,6) have nb: "tor_ip_after env a = not_defined \<or> tor_ip_after env a = old"
      by simp
    have "\<exists>st'. retry_loop w env old n (Suc a)
            (st\<lparr>signals := Suc (signals st), new_ip := tor_ip_after env a,
                 note_var := unchanged_note\<rparr>) =
            Raised (control_error (tor_control_port (config w)) cause) st'
          \<and> signals st' = Suc (signals st) + (k - Suc a) + 1"
      using Suc.IH[of "Suc a" "st\<lparr>signals := Suc (signals st), new_ip := tor_ip_after env a,
                 note_var := unchanged_note\<rparr>"] Suc.prems(1,4,5,6) lt by simp
    with nn nb Suc.prems(1) lt show ?thesis by (auto simp add: tor_newnym_def Let_def)
  qed
qed

text \<open>
  A wait that \<open>time.sleep\<close> does not accept ends the run in the first iteration, after one
  signal, whatever address would have been resolved.
\<close>

lemma out_of_range_wait_fails_first_sleep:
  assumes "0 \<le> retries w" and "newnym_outcome env 0 = None"
    and "time_sleep (wait_seconds w) = Some sleep_msg"
  shows "signal (run w env fs) = Failed sleep_msg \<and> newnym_calls (run w env fs) = 1"
proof -
  from assms(1) obtain n where n: "nat (retries w + 1) = Suc n"
    by (cases "nat (retries w + 1)") auto
  with assms(2,3) show ?thesis
    by (simp add: run_def Let_def tor_newnym_def split: prod.splits)
qed

lemma run_failed_iff:
  "signal (run w env fs) = Failed msg \<longleftrightarrow>
     (\<exists>st. retry_loop w env (tor_ip_before env) (nat (retries w + 1)) 0
              \<lparr>new_ip = tor_ip_before env, note_var = [], signals = 0\<rparr> = Raised msg st)"
  by (auto simp: run_def Let_def split: prod.splits loop_exit.splits)

lemma run_calls:
  "newnym_calls (run w env fs) =
     signals (exit_state (retry_loop w env (tor_ip_before env) (nat (retries w + 1)) 0
              \<lparr>new_ip = tor_ip_before env, note_var = [], signals = 0\<rparr>))"
  by (auto simp: run_def Let_def exit_state_def split: prod.splits loop_exit.splits)

lemma run_break_at:
  "break_at (run w env fs) = Some k \<longleftrightarrow>
     (\<exists>st. retry_loop w env (tor_ip_before env) (nat (retries w + 1)) 0
              \<lparr>new_ip = tor_ip_before env, note_var = [], signals = 0\<rparr> = Broke k st)"
  by (auto simp: run_def Let_def exit_state_def split: prod.splits loop_exit.splits)



section \<open>The rotation worker\<close>

text \<open>
  Claim C1. With a retry count \<open>R \<ge> 0\<close>, a run sends the new-identity signal at most
  \<open>R + 1\<close> times, whatever the addresses and the outcomes of the signal are. The loop
  breaks only at the first iteration whose address is defined and differs from the address
  held at loop entry (the pre-rotation address), having sent one signal per iteration up to
  there; and it does break at that iteration when it lies within the \<open>R + 1\<close> iterations,
  the wait is one \<open>time.sleep\<close> accepts (from 0 to 9223372036 seconds) and no signal up to
  there fails.
\<close>

theorem rotation_signals_bounded_first_break:
  assumes "0 \<le> retries w"
  shows "int (newnym_calls (run w env fs)) \<le> retries w + 1
     \<and> (\<forall>k. break_at (run w env fs) = Some k \<longrightarrow>
           int k \<le> retries w
           \<and> tor_ip_after env k \<noteq> not_defined \<and> tor_ip_after env k \<noteq> tor_ip_before env
           \<and> (\<forall>j<k. tor_ip_after env j = not_defined \<or> tor_ip_after env j = tor_ip_before env)
           \<and> newnym_calls (run w env fs) = k + 1)
     \<and> (\<forall>k. int k \<le> retries w \<and> 0 \<le> wait_seconds w \<and> wait_seconds w \<le> 9223372036
            \<and> (\<forall>j\<le>k. newnym_outcome env j = None)
            \<and> tor_ip_after env k \<noteq> not_defined \<and> tor_ip_after env k \<noteq> tor_ip_before env
            \<and> (\<forall>j<k. tor_ip_after env j = not_defined \<or> tor_ip_after env j = tor_ip_before env)
           \<longrightarrow> break_at (run w env fs) = Some k)"
proof (intro conjI allI impI)
  let ?init = "\<lparr>new_ip = tor_ip_before env, note_var = [], signals = 0\<rparr>"
  let ?loop = "retry_loop w env (tor_ip_before env) (nat (retries w + 1)) 0 ?init"
  have "newnym_calls (run w env fs) \<le> nat (retries w + 1)"
    using retry_loop_signals[of w env "tor_ip_before env" "nat (retries w + 1)" 0 ?init]
    by (simp add: run_calls)
  with assms show "int (newnym_calls (run w env fs)) \<le> retries w + 1" by linarith
next
  fix k assume b: "break_at (run w env fs) = Some k"
  then obtain st where l: "retry_loop w env (tor_ip_before env) (nat (retries w + 1)) 0
       \<lparr>new_ip = tor_ip_before env, note_var = [], signals = 0\<rparr> = Broke k st"
    by (auto simp: run_break_at)
  note f = retry_loop_broke[OF l]
  from f assms show "int k \<le> retries w" by linarith
  from f show "tor_ip_after env k \<noteq> not_defined" by simp
  from f show "tor_ip_after env k \<noteq> tor_ip_before env" by simp
  from f show "\<And>j. j < k \<Longrightarrow> tor_ip_after env j = not_defined \<or> tor_ip_after env j = tor_ip_before env"
    by simp
  from f l show "newnym_calls (run w env fs) = k + 1"
    by (simp add: run_calls exit_state_def)
next
  fix k
  assume h: "int k \<le> retries w \<and> 0 \<le> wait_seconds w \<and> wait_seconds w \<le> 9223372036
            \<and> (\<forall>j\<le>k. newnym_outcome env j = None)
            \<and> tor_ip_after env k \<noteq> not_defined \<and> tor_ip_after env k \<noteq> tor_ip_before env
            \<and> (\<forall>j<k. tor_ip_after env j = not_defined \<or> tor_ip_after env j = tor_ip_before env)"
  then have "k < 0 + nat (retries w + 1)" by linarith
  with h have "\<exists>st'. retry_loop w env (tor_ip_before env) (nat (retries w + 1)) 0
       \<lparr>new_ip = tor_ip_before env, note_var = [], signals = 0\<rparr> = Broke k st'"
    by (intro retry_loop_reaches_break) (auto simp: time_sleep_returns)
  then show "break_at (run w env fs) = Some k" by (simp add: run_break_at)
qed

theorem rotation_signals_bounded_first_break_witness:
  "0 \<le> retries (worker_with 2)
   \<and> int (newnym_calls (run (worker_with 2)
              (world_with ''1.1.1.1'' second_attempt_changes always_ok) no_files))
       \<le> retries (worker_with 2) + 1
   \<and> break_at (run (worker_with 2)
              (world_with ''1.1.1.1'' second_attempt_changes always_ok) no_files) = Some 1
   \<and> newnym_calls (run (worker_with 2)
              (world_with ''1.1.1.1'' second_attempt_changes always_ok) no_files) = 2"
proof -
  let ?w = "worker_with 2"
  let ?e = "world_with ''1.1.1.1'' second_attempt_changes always_ok"
  have r: "0 \<le> retries ?w" by (simp add: worker_with_def)
  note t = rotation_signals_bounded_first_break[OF r, of ?e no_files]
  have h: "int 1 \<le> retries ?w \<and> 0 \<le> wait_seconds ?w \<and> wait_seconds ?w \<le> 9223372036
            \<and> (\<forall>j\<le>1. newnym_outcome ?e j = None)
            \<and> tor_ip_after ?e 1 \<noteq> not_defined \<and> tor_ip_after ?e 1 \<noteq> tor_ip_before ?e
            \<and> (\<forall>j<1. tor_ip_after ?e j = not_defined \<or> tor_ip_after ?e j = tor_ip_before ?e)"
    by (simp add: worker_with_def world_with_def always_ok_def second_attempt_changes_def
          not_defined_def)
  from t h have b: "break_at (run ?w ?e no_files) = Some 1" by blast
  with t have "newnym_calls (run ?w ?e no_files) = 1 + 1" by blast
  with r t b show ?thesis by simp
qed

lemma retry_loop_final_ip:
  assumes "retry_loop w env old n a st = e" "\<forall>msg s. e \<noteq> Raised msg s"
  shows "signals st \<le> signals (exit_state e)
       \<and> new_ip (exit_state e) =
           (if signals (exit_state e) = signals st then new_ip st
            else tor_ip_after env (a + (signals (exit_state e) - signals st) - 1))"
  using assms
proof (induction n arbitrary: a st)
  case 0
  then show ?case by (auto simp: exit_state_def)
next
  case (Suc n)
  let ?st' = "st\<lparr>signals := Suc (signals st), new_ip := tor_ip_after env a,
                 note_var := unchanged_note\<rparr>"
  show ?case
  proof (cases "\<exists>st2. e = Broke a st2")
    case True
    with Suc.prems show ?thesis
      by (auto simp: exit_state_def tor_newnym_def Let_def split: option.splits if_splits
          dest: retry_loop_broke)
  next
    case False
    with Suc.prems have rec: "retry_loop w env old n (Suc a) ?st' = e"
      by (auto simp: tor_newnym_def Let_def split: option.splits if_splits)
    from Suc.IH[OF rec Suc.prems(2)] show ?thesis
      by (auto split: if_splits)
  qed
qed

lemma run_done:
  assumes "signal (run w env fs) = Done res"
  shows "\<exists>e. retry_loop w env (tor_ip_before env) (nat (retries w + 1)) 0
              \<lparr>new_ip = tor_ip_before env, note_var = [], signals = 0\<rparr> = e
           \<and> (\<forall>msg s. e \<noteq> Raised msg s)
           \<and> old_tor_ip res = tor_ip_before env
           \<and> new_tor_ip res = new_ip (exit_state e)
           \<and> note_text res = note_var (exit_state e)
           \<and> changed res = (new_ip (exit_state e) \<noteq> not_defined \<and> tor_ip_before env \<noteq> not_defined
                             \<and> new_ip (exit_state e) \<noteq> tor_ip_before env)
           \<and> fs_after (run w env fs) = append_log (config w) res (log_io_ok env) fs"
  using assms
  by (auto simp: run_def Let_def exit_state_def split: prod.splits loop_exit.splits)

text \<open>
  Claim C2. When a run ends without an exception, so that it emits a result, the flag
  \<open>changed\<close> of the result is true if and only if the pre-rotation address and the
  post-rotation address are both different from \<open>"Not Defined"\<close> and different from each
  other. The two addresses of the result are the address resolved before the loop and the
  address resolved in the last iteration that ran.
\<close>

theorem changed_flag_iff:
  assumes "signal (run w env fs) = Done res"
  shows "(changed res \<longleftrightarrow>
            old_tor_ip res \<noteq> not_defined \<and> new_tor_ip res \<noteq> not_defined
            \<and> old_tor_ip res \<noteq> new_tor_ip res)
       \<and> old_tor_ip res = tor_ip_before env
       \<and> new_tor_ip res =
           (if newnym_calls (run w env fs) = 0 then tor_ip_before env
            else tor_ip_after env (newnym_calls (run w env fs) - 1))"
proof -
  from run_done[OF assms] obtain e where
    e: "retry_loop w env (tor_ip_before env) (nat (retries w + 1)) 0
              \<lparr>new_ip = tor_ip_before env, note_var = [], signals = 0\<rparr> = e"
    and nr: "\<forall>msg s. e \<noteq> Raised msg s"
    and o: "old_tor_ip res = tor_ip_before env"
    and n: "new_tor_ip res = new_ip (exit_state e)"
    and c: "changed res = (new_ip (exit_state e) \<noteq> not_defined \<and> tor_ip_before env \<noteq> not_defined
                             \<and> new_ip (exit_state e) \<noteq> tor_ip_before env)"
    by blast
  have calls: "newnym_calls (run w env fs) = signals (exit_state e)"
    using e by (simp add: run_calls)
  from retry_loop_final_ip[OF e nr] have
    "new_ip (exit_state e) = (if signals (exit_state e) = 0 then tor_ip_before env
            else tor_ip_after env (signals (exit_state e) - 1))" by simp
  with o n c calls show ?thesis by auto
qed

theorem changed_flag_iff_witness:
  "signal (run (worker_with 2) (world_with ''1.1.1.1'' second_attempt_changes always_ok) no_files)
     = Done second_attempt_result
   \<and> changed second_attempt_result
   \<and> old_tor_ip second_attempt_result = ''1.1.1.1''
   \<and> new_tor_ip second_attempt_result = ''2.2.2.2''"
proof -
  have h: "signal (run (worker_with 2) (world_with ''1.1.1.1'' second_attempt_changes always_ok)
             no_files) = Done second_attempt_result"
    by code_simp
  have c: "newnym_calls (run (worker_with 2) (world_with ''1.1.1.1'' second_attempt_changes always_ok)
             no_files) = 2"
    by code_simp
  from changed_flag_iff[OF h] c h show ?thesis
    by (simp add: world_with_def second_attempt_changes_def not_defined_def)
qed

text \<open>
  Claim C3. If \<open>tor_newnym\<close> fails in an iteration the loop reaches (every earlier iteration
  sent its signal, slept, which needs a wait from 0 to 9223372036 seconds, and resolved an
  address that did not end the loop), the run emits \<open>failed\<close>, after one signal per
  iteration up to there, and the file system is what it was before the run: nothing is
  appended to the log. The message names the control port and the cause whenever the port
  can be formatted, that is, has at most 4300 digits.
\<close>

theorem newnym_failure_fails_run:
  assumes "int k \<le> retries w"
    and "0 < k \<longrightarrow> 0 \<le> wait_seconds w \<and> wait_seconds w \<le> 9223372036"
    and "newnym_outcome env k = Some cause"
    and "\<forall>j<k. newnym_outcome env j = None
               \<and> (tor_ip_after env j = not_defined \<or> tor_ip_after env j = tor_ip_before env)"
  shows "(str_digits_ok (tor_control_port (config w)) \<longrightarrow>
            signal (run w env fs) =
              Failed (''Failed to connect to Tor control port ''
                      @ str_int (tor_control_port (config w)) @ '': '' @ cause))
       \<and> (\<exists>msg. signal (run w env fs) = Failed msg)
       \<and> fs_after (run w env fs) = fs
       \<and> newnym_calls (run w env fs) = k + 1"
proof -
  let ?init = "\<lparr>new_ip = tor_ip_before env, note_var = [], signals = 0\<rparr>"
  from assms(1) have lt: "k < 0 + nat (retries w + 1)" by linarith
  have "\<exists>st'. retry_loop w env (tor_ip_before env) (nat (retries w + 1)) 0 ?init =
            Raised (control_error (tor_control_port (config w)) cause) st'
          \<and> signals st' = signals ?init + (k - 0) + 1"
    using assms(2,3,4) lt by (intro retry_loop_reaches_raise) (auto simp: time_sleep_returns)
  then obtain st' where
    l: "retry_loop w env (tor_ip_before env) (nat (retries w + 1)) 0 ?init =
            Raised (control_error (tor_control_port (config w)) cause) st'"
    and s: "signals st' = k + 1" by auto
  have m: "str_digits_ok (tor_control_port (config w)) \<Longrightarrow>
           control_error (tor_control_port (config w)) cause =
             ''Failed to connect to Tor control port ''
             @ str_int (tor_control_port (config w)) @ '': '' @ cause"
    by (simp only: control_error_def if_True)
  from l s have r: "signal (run w env fs) = Failed (control_error (tor_control_port (config w)) cause)
       \<and> fs_after (run w env fs) = fs
       \<and> newnym_calls (run w env fs) = k + 1"
    by (simp add: run_def Let_def split: prod.splits)
  show ?thesis
  proof (intro conjI impI)
    assume "str_digits_ok (tor_control_port (config w))"
    from m[OF this] r show "signal (run w env fs) =
              Failed (''Failed to connect to Tor control port ''
                      @ str_int (tor_control_port (config w)) @ '': '' @ cause)"
      by (simp only:)
  next
    from r show "\<exists>msg. signal (run w env fs) = Failed msg" by blast
  next
    from r show "fs_after (run w env fs) = fs" by blast
  next
    from r show "newnym_calls (run w env fs) = k + 1" by blast
  qed
qed

theorem newnym_failure_fails_run_witness:
  "newnym_outcome (world_with ''1.1.1.1'' second_attempt_changes refused_at_second) 1
     = Some ''Connection refused''
   \<and> str_digits_ok (tor_control_port (config (worker_with 2)))
   \<and> signal (run (worker_with 2) (world_with ''1.1.1.1'' second_attempt_changes refused_at_second)
              (one_file ''identity_history.log'' []))
     = Failed ''Failed to connect to Tor control port 9051: Connection refused''
   \<and> fs_after (run (worker_with 2)
                  (world_with ''1.1.1.1'' second_attempt_changes refused_at_second)
                  (one_file ''identity_history.log'' []))
     = one_file ''identity_history.log'' []
   \<and> newnym_calls (run (worker_with 2)
                  (world_with ''1.1.1.1'' second_attempt_changes refused_at_second)
                  (one_file ''identity_history.log'' [])) = 2"
proof -
  let ?w = "worker_with 2"
  let ?e = "world_with ''1.1.1.1'' second_attempt_changes refused_at_second"
  have h1: "int 1 \<le> retries ?w" by (simp add: worker_with_def)
  have h2: "0 < (1::nat) \<longrightarrow> 0 \<le> wait_seconds ?w \<and> wait_seconds ?w \<le> 9223372036"
    by (simp add: worker_with_def)
  have h3: "newnym_outcome ?e 1 = Some ''Connection refused''"
    by (simp add: world_with_def refused_at_second_def)
  have h4: "\<forall>j<1. newnym_outcome ?e j = None
               \<and> (tor_ip_after ?e j = not_defined \<or> tor_ip_after ?e j = tor_ip_before ?e)"
    by (simp add: world_with_def refused_at_second_def second_attempt_changes_def)
  have p: "''Failed to connect to Tor control port ''
             @ str_int (tor_control_port (config ?w)) @ '': '' @ ''Connection refused''
           = ''Failed to connect to Tor control port 9051: Connection refused''"
    by (simp add: worker_with_def default_config_def str_int_def str_nat.simps digit_char_def)
  have d: "str_digits_ok (tor_control_port (config ?w))"
    by (simp add: str_digits_ok_def worker_with_def default_config_def str_nat.simps)
  from newnym_failure_fails_run[OF h1 h2 h3 h4, of "one_file ''identity_history.log'' []"] d
  have "signal (run ?w ?e (one_file ''identity_history.log'' []))
          = Failed ''Failed to connect to Tor control port 9051: Connection refused''
       \<and> fs_after (run ?w ?e (one_file ''identity_history.log'' []))
          = one_file ''identity_history.log'' []
       \<and> newnym_calls (run ?w ?e (one_file ''identity_history.log'' [])) = 1 + 1"
    by (simp only: p)
  with h3 d show ?thesis by (simp only: one_add_one)
qed

text \<open>
  Claim C4, as amended. The loop compares the newly resolved address with the pre-rotation
  address \<open>old_ip\<close>, which no iteration changes: whenever the loop breaks, the final address
  is defined and differs from the pre-rotation address, so no sequence of addresses makes
  the loop break with a final address equal to the first one.
\<close>

theorem break_compares_with_pre_rotation_address:
  assumes "break_at (run w env fs) = Some k"
  shows "\<exists>res. signal (run w env fs) = Done res
           \<and> old_tor_ip res = tor_ip_before env
           \<and> new_tor_ip res = tor_ip_after env k
           \<and> new_tor_ip res \<noteq> not_defined
           \<and> new_tor_ip res \<noteq> old_tor_ip res"
proof -
  from assms obtain st where
    l: "retry_loop w env (tor_ip_before env) (nat (retries w + 1)) 0
          \<lparr>new_ip = tor_ip_before env, note_var = [], signals = 0\<rparr> = Broke k st"
    by (auto simp: run_break_at)
  note f = retry_loop_broke[OF l]
  from l f show ?thesis
    by (auto simp add: run_def Let_def exit_state_def split: prod.splits)
qed

theorem break_compares_with_pre_rotation_address_witness:
  "break_at (run (worker_with 2) (world_with ''1.1.1.1'' second_attempt_changes always_ok) no_files)
     = Some 1
   \<and> (\<exists>res. signal (run (worker_with 2)
                (world_with ''1.1.1.1'' second_attempt_changes always_ok) no_files) = Done res
           \<and> old_tor_ip res = ''1.1.1.1'' \<and> new_tor_ip res = ''2.2.2.2'')"
proof -
  have h: "break_at (run (worker_with 2)
             (world_with ''1.1.1.1'' second_attempt_changes always_ok) no_files) = Some 1"
    by code_simp
  from break_compares_with_pre_rotation_address[OF h] h show ?thesis
    by (auto simp add: world_with_def second_attempt_changes_def)
qed

text \<open>
  The addresses \<open>1.1.1.1, Not Defined, 1.1.1.1\<close> with one retry. After iteration 0 the loop
  holds \<open>"Not Defined"\<close>; iteration 1 resolves \<open>1.1.1.1\<close>, which is defined and differs from
  the address held at the start of that iteration, and the loop does not break: it runs
  out after two signals and the result says the address did not change.
\<close>

theorem loop_ignores_address_held_at_iteration_start:
  "new_ip (exit_state (retry_loop (worker_with 1)
             (world_with ''1.1.1.1'' back_to_first always_ok) ''1.1.1.1'' 1 0
             \<lparr>new_ip = ''1.1.1.1'', note_var = [], signals = 0\<rparr>)) = not_defined
   \<and> tor_ip_after (world_with ''1.1.1.1'' back_to_first always_ok) 1 = ''1.1.1.1''
   \<and> ''1.1.1.1'' \<noteq> not_defined
   \<and> break_at (run (worker_with 1) (world_with ''1.1.1.1'' back_to_first always_ok) no_files) = None
   \<and> newnym_calls (run (worker_with 1) (world_with ''1.1.1.1'' back_to_first always_ok) no_files) = 2
   \<and> signal (run (worker_with 1) (world_with ''1.1.1.1'' back_to_first always_ok) no_files)
       = Done \<lparr>timestamp = ''2026-01-01 00:00:00'', real_ip = ''203.0.113.7'',
               old_tor_ip = ''1.1.1.1'', new_tor_ip = ''1.1.1.1'', old_country = not_defined,
               old_city = not_defined, new_country = not_defined, new_city = not_defined,
               changed = False, note_text = unchanged_note\<rparr>"
  by code_simp

text \<open>
  Claim C9, as amended. When the loop breaks in a later iteration than the first and the
  pre-rotation address is defined, the result has \<open>changed = True\<close> and still carries the
  note set by the earlier iteration, which left the address unchanged or undetermined: the
  note is not reset, and a non-empty note does not mean an unchanged address.
\<close>

theorem note_survives_later_success:
  assumes "break_at (run w env fs) = Some k" and "0 < k" and "tor_ip_before env \<noteq> not_defined"
  shows "\<exists>res. signal (run w env fs) = Done res \<and> changed res
           \<and> note_text res = unchanged_note \<and> note_text res \<noteq> []
           \<and> (tor_ip_after env 0 = not_defined \<or> tor_ip_after env 0 = tor_ip_before env)"
proof -
  from assms(1) obtain st where
    l: "retry_loop w env (tor_ip_before env) (nat (retries w + 1)) 0
          \<lparr>new_ip = tor_ip_before env, note_var = [], signals = 0\<rparr> = Broke k st"
    by (auto simp: run_break_at)
  note f = retry_loop_broke[OF l]
  have ne: "unchanged_note \<noteq> []" by (simp add: unchanged_note_def)
  from l f assms(2,3) ne show ?thesis
    by (auto simp add: run_def Let_def exit_state_def split: prod.splits)
qed

theorem note_survives_later_success_witness:
  "break_at (run (worker_with 2) (world_with ''1.1.1.1'' second_attempt_changes always_ok) no_files)
     = Some 1
   \<and> (0::nat) < 1
   \<and> tor_ip_before (world_with ''1.1.1.1'' second_attempt_changes always_ok) \<noteq> not_defined
   \<and> (\<exists>res. signal (run (worker_with 2)
                (world_with ''1.1.1.1'' second_attempt_changes always_ok) no_files) = Done res
           \<and> changed res \<and> note_text res = unchanged_note)"
proof -
  have h: "break_at (run (worker_with 2)
             (world_with ''1.1.1.1'' second_attempt_changes always_ok) no_files) = Some 1"
    by code_simp
  have d: "tor_ip_before (world_with ''1.1.1.1'' second_attempt_changes always_ok) \<noteq> not_defined"
    by (simp add: world_with_def not_defined_def)
  from note_survives_later_success[OF h _ d] h d show ?thesis by auto
qed

text \<open>
  With no address before the rotation and in iteration 0, and \<open>2.2.2.2\<close> in iteration 1, the
  loop breaks in iteration 1, and the result carries the note with \<open>changed = False\<close>.
\<close>

theorem success_after_undetermined_start_is_unchanged:
  "break_at (run (worker_with 1) (world_with not_defined undetermined_then_found always_ok) no_files)
     = Some 1
   \<and> tor_ip_after (world_with not_defined undetermined_then_found always_ok) 0 = not_defined
   \<and> signal (run (worker_with 1) (world_with not_defined undetermined_then_found always_ok) no_files)
       = Done \<lparr>timestamp = ''2026-01-01 00:00:00'', real_ip = ''203.0.113.7'',
               old_tor_ip = not_defined, new_tor_ip = ''2.2.2.2'', old_country = not_defined,
               old_city = not_defined, new_country = not_defined, new_city = not_defined,
               changed = False, note_text = unchanged_note\<rparr>"
  by code_simp

section \<open>The change log\<close>

lemma read_items_acc: "read_items loads ls acc = acc @ read_items loads ls []"
proof (induction ls arbitrary: acc)
  case Nil
  then show ?case by simp
next
  case (Cons l ls)
  show ?case
  proof (cases "strip l = []")
    case True
    with Cons.IH[of acc] show ?thesis by simp
  next
    case False
    show ?thesis
    proof (cases "loads (strip l)")
      case None
      with False Cons.IH[of acc] show ?thesis by simp
    next
      case (Some v)
      with False Cons.IH[of "acc @ [v]"] Cons.IH[of "[v]"] show ?thesis by simp
    qed
  qed
qed

lemma read_items_append:
  "read_items loads (xs @ ys) acc = read_items loads ys (read_items loads xs acc)"
  by (induction xs arbitrary: acc) (auto simp: Let_def split: option.splits)

lemma py_slice_last:
  "0 < n \<Longrightarrow> py_slice_from (- n) xs = drop (length xs - nat n) xs"
proof -
  assume "0 < n"
  then have "nat (int (length xs) + - n) = length xs - nat n" by arith
  with \<open>0 < n\<close> show ?thesis by (simp add: py_slice_from_def)
qed

text \<open>
  The loop keeps, in order, the lines that are not blank and that decode; an absent file
  gives the empty list.
\<close>

lemma read_items_skips_malformed:
  "read_items loads ls [] =
     List.map_filter (\<lambda>l. if strip l = [] then None else loads (strip l)) ls"
proof (induction ls)
  case Nil
  then show ?case by (simp add: List.map_filter_simps)
next
  case (Cons l ls)
  then show ?case
    using read_items_acc[of loads ls "[the (loads (strip l))]"]
    by (auto simp: List.map_filter_simps Let_def split: option.splits)
qed

lemma read_last_logs_absent: "fs path = None \<Longrightarrow> read_last_logs loads io_ok fs path limit = []"
  by (simp add: read_last_logs_def)

text \<open>
  With a positive limit \<open>n\<close>, \<open>read_last_logs\<close> returns at most \<open>n\<close> records: the last
  \<open>n\<close> decodable lines of the file, the most recent first.
\<close>

lemma read_last_logs_positive_limit:
  assumes "0 < n"
  shows "length (read_last_logs loads io_ok fs path n) \<le> nat n
       \<and> (\<forall>content. fs path = Some content \<and> io_ok \<longrightarrow>
             read_last_logs loads io_ok fs path n =
               take (nat n) (rev (read_items loads (file_lines (universal_newlines content)) [])))"
  using assms
  by (auto simp: read_last_logs_def py_slice_last take_rev split: option.splits)

text \<open>
  Claim C5. \<open>read_last_logs(log_file, n)\<close> is to return at most \<open>n\<close> records for every
  \<open>n \<ge> 0\<close>. With \<open>n = 0\<close> the slice \<open>items[-0:]\<close> is the whole list: on a log of two
  records the function returns both.
\<close>

theorem read_last_logs_limit_zero:
  "read_last_logs json_loads_flat True
     (one_file ''identity_history.log''
        (json_dumps (log_entry first_record) @ [LF] @ json_dumps (log_entry second_record) @ [LF]))
     ''identity_history.log'' 0
   = [log_entry second_record, log_entry first_record]"
  by code_simp

lemma digit_char_in: "digit_char d \<in> set ''0123456789abcdef''"
  unfolding digit_char_def by (rule nth_mem) simp

lemma digit_char_no_newline: "digit_char d \<noteq> LF \<and> digit_char d \<noteq> CR"
  using digit_char_in[of d] by (auto simp: LF_def CR_def)

lemma json_escape_char_no_newline:
  "x \<in> set (json_escape_char c) \<Longrightarrow> x \<noteq> LF \<and> x \<noteq> CR"
  using digit_char_no_newline
  by (auto simp: json_escape_char_def LF_def CR_def BACKSLASH_def DQUOTE_def split: if_splits)

lemma json_string_no_newline: "x \<in> set (json_string s) \<Longrightarrow> x \<noteq> LF \<and> x \<noteq> CR"
  using json_escape_char_no_newline
  by (auto simp: json_string_def LF_def CR_def DQUOTE_def)

lemma json_value_no_newline: "x \<in> set (json_value v) \<Longrightarrow> x \<noteq> LF \<and> x \<noteq> CR"
  using json_string_no_newline by (cases v) (auto simp: LF_def CR_def split: if_splits)

lemma json_member_no_newline: "x \<in> set (json_member kv) \<Longrightarrow> x \<noteq> LF \<and> x \<noteq> CR"
  using json_string_no_newline json_value_no_newline
  by (auto simp: json_member_def LF_def CR_def)

lemma json_members_no_newline: "x \<in> set (json_members d) \<Longrightarrow> x \<noteq> LF \<and> x \<noteq> CR"
proof (induction d rule: json_members.induct)
  case 1
  then show ?case by simp
next
  case (2 kv)
  then show ?case using json_member_no_newline by simp
next
  case (3 kv v va)
  then show ?case using json_member_no_newline[of x kv] by (auto simp: LF_def CR_def)
qed

lemma json_dumps_no_newline: "x \<in> set (json_dumps d) \<Longrightarrow> x \<noteq> LF \<and> x \<noteq> CR"
  using json_members_no_newline[of x d] by (auto simp: json_dumps_def LF_def CR_def)

lemma strip_json_dumps_line: "strip (json_dumps d @ [LF]) = json_dumps d"
  by (simp add: strip_def json_dumps_def is_space_def LF_def)

lemma json_dumps_not_empty: "json_dumps d \<noteq> []"
  by (simp add: json_dumps_def)

lemma universal_newlines_no_cr: "CR \<notin> set s \<Longrightarrow> universal_newlines s = s"
  by (induction s rule: universal_newlines.induct) auto

lemma universal_newlines_append:
  assumes "b = [] \<or> hd b \<noteq> LF"
  shows "universal_newlines (a @ b) = universal_newlines a @ universal_newlines b"
  using assms
proof (induction a rule: universal_newlines.induct)
  case 1
  then show ?case by simp
next
  case (2 c)
  then show ?case by (cases b) auto
next
  case (3 c d cs)
  then show ?case by auto
qed

lemma universal_newlines_ends:
  "s \<noteq> [] \<Longrightarrow> last s = LF \<or> last s = CR \<Longrightarrow>
     universal_newlines s \<noteq> [] \<and> last (universal_newlines s) = LF"
proof (induction s rule: universal_newlines.induct)
  case 1
  then show ?case by simp
next
  case (2 c)
  then show ?case by auto
next
  case (3 c d cs)
  then show ?case by (cases cs) (auto split: if_splits)
qed

lemma file_lines_empty_iff: "file_lines s = [] \<longleftrightarrow> s = []"
  by (cases s) (auto split: list.splits)

lemma file_lines_append:
  "a = [] \<or> last a = LF \<Longrightarrow> file_lines (a @ b) = file_lines a @ file_lines b"
proof (induction a)
  case Nil
  then show ?case by simp
next
  case (Cons c cs)
  show ?case
  proof (cases "cs = []")
    case True
    with Cons.prems show ?thesis by simp
  next
    case False
    with Cons.prems have "last cs = LF" by simp
    with Cons.IH have ih: "file_lines (cs @ b) = file_lines cs @ file_lines b" by simp
    from False have "file_lines cs \<noteq> []" by (simp add: file_lines_empty_iff)
    then obtain l ls where "file_lines cs = l # ls" by (cases "file_lines cs") auto
    with ih show ?thesis by simp
  qed
qed

lemma file_lines_single: "LF \<notin> set s \<Longrightarrow> file_lines (s @ [LF]) = [s @ [LF]]"
  by (induction s) auto

lemma py_slice_last_one: "py_slice_from (- 1) (xs @ [x]) = [x]"
  by (simp add: py_slice_from_def)

lemma read_appended_line:
  assumes "loads (json_dumps e) = Some d" and "ends_with_line_end old"
  shows "read_items loads (file_lines (universal_newlines (old @ json_dumps e @ [LF]))) []
           = read_items loads (file_lines (universal_newlines old)) [] @ [d]"
proof -
  let ?line = "json_dumps e @ [LF]"
  have nocr: "CR \<notin> set ?line" using json_dumps_no_newline[of CR e] by (auto simp: CR_def LF_def)
  have nolf: "LF \<notin> set (json_dumps e)" using json_dumps_no_newline[of LF e] by auto
  have hd: "?line = [] \<or> hd ?line \<noteq> LF" by (simp add: json_dumps_def LF_def)
  have u: "universal_newlines (old @ ?line) = universal_newlines old @ ?line"
    using universal_newlines_append[OF hd, of old] universal_newlines_no_cr[OF nocr] by simp
  have t: "universal_newlines old = [] \<or> last (universal_newlines old) = LF"
  proof (cases "old = []")
    case True
    then show ?thesis by simp
  next
    case False
    with assms(2) universal_newlines_ends[of old] show ?thesis
      by (simp add: ends_with_line_end_def)
  qed
  have f: "file_lines (universal_newlines old @ ?line) = file_lines (universal_newlines old) @ [?line]"
    using file_lines_append[OF t, of ?line] file_lines_single[OF nolf] by simp
  have "read_items loads [?line] acc = acc @ [d]" for acc
    using assms(1) by (simp add: strip_json_dumps_line json_dumps_not_empty)
  with u f show ?thesis by (simp add: read_items_append)
qed

lemma log_entry_matches: "entry_matches (log_entry r) r"
  by (simp add: entry_matches_def log_entry_def)

text \<open>
  The decoder inverts the serialiser: every escape \<open>json_escape_char\<close> writes is read back
  as the character it stands for, so a string, a member and a whole dictionary decode to
  what was written.
\<close>

lemma hex_val_digit_char: "k < 16 \<Longrightarrow> hex_val (digit_char k) = Some k"
proof -
  assume "k < 16"
  then have "k \<in> set [0..<16]" by simp
  then show ?thesis
    by (simp add: upt_rec [of _ "numeral n" for n] upt_rec [of _ "Suc n" for n])
       (auto simp: hex_val_def digit_char_def)
qed

lemma hex4_control:
  assumes "n < 32"
  shows "hex4 (CHR ''0'') (CHR ''0'') (digit_char (n div 16)) (digit_char (n mod 16)) = Some n"
proof -
  from assms have a: "n div 16 < 16" by simp
  have b: "n mod 16 < 16" by simp
  have z: "hex_val (CHR ''0'') = Some 0" by (simp add: hex_val_def)
  show ?thesis
    by (simp add: hex4_def z hex_val_digit_char[OF a] hex_val_digit_char[OF b])
qed

lemma parse_escaped_char:
  "parse_string_body (json_escape_char c @ e # cs) = push_char c (parse_string_body (e # cs))"
proof (cases "c = DQUOTE \<or> c = BACKSLASH \<or> c = LF \<or> c = CR \<or> c = CHR 0x09 \<or> c = CHR 0x08
               \<or> c = CHR 0x0C")
  case True
  then show ?thesis
    by (auto simp: json_escape_char_def unescape_def DQUOTE_def BACKSLASH_def LF_def CR_def)
next
  case plain: False
  show ?thesis
  proof (cases "(of_char c :: nat) < 32")
    case True
    have "char_of (of_char c :: nat) = c" by simp
    with True plain show ?thesis
      by (simp add: json_escape_char_def hex4_control DQUOTE_def BACKSLASH_def)
  next
    case False
    with plain show ?thesis
      by (simp add: json_escape_char_def)
  qed
qed

lemma parse_string_body_escaped:
  "parse_string_body (concat (map json_escape_char s) @ DQUOTE # rest) = Some (s, rest)"
proof (induction s)
  case Nil
  then show ?case by (cases rest) simp_all
next
  case (Cons c s)
  obtain e cs where t: "concat (map json_escape_char s) @ DQUOTE # rest = e # cs"
    by (cases "concat (map json_escape_char s) @ DQUOTE # rest") auto
  with Cons.IH have "parse_string_body (e # cs) = Some (s, rest)" by simp
  then have "parse_string_body (json_escape_char c @ e # cs) = Some (c # s, rest)"
    by (simp add: parse_escaped_char push_char_def)
  with t show ?case by simp
qed

lemma json_value_starts:
  "\<exists>x xs. json_value v = x # xs \<and> \<not> json_ws x"
  by (cases v) (auto simp: json_string_def json_ws_def DQUOTE_def LF_def CR_def)

lemma parse_value_json_value: "parse_value (json_value v @ rest) = Some (v, rest)"
proof (cases v)
  case (JStr s)
  have q: "DQUOTE \<noteq> CHR ''t''" "DQUOTE \<noteq> CHR ''f''" by (simp_all add: DQUOTE_def)
  from JStr show ?thesis
    by (simp add: parse_value_def json_string_def parse_string_body_escaped q)
next
  case (JBool b)
  then show ?thesis by (simp add: parse_value_def)
qed

lemma parse_members_skip_space:
  "parse_members fuel (CHR '' '' # s) acc = parse_members fuel s acc"
  by (cases fuel) (simp_all add: json_ws_def)

lemma parse_member_step_pair:
  "parse_members (Suc fuel) (json_member (k, v) @ r3) acc =
     (case dropWhile json_ws r3 of
        [] \<Rightarrow> None
      | sep # r4 \<Rightarrow>
          if sep = CHR '','' then parse_members fuel r4 (acc @ [(k, v)])
          else if sep = CHR ''}'' then Some (acc @ [(k, v)], r4)
          else None)"
proof -
  obtain x xs where v: "json_value v = x # xs" "\<not> json_ws x"
    using json_value_starts by blast
  have a: "dropWhile json_ws (json_member (k, v) @ r3)
             = DQUOTE # concat (map json_escape_char k)
                 @ DQUOTE # ('': '' @ json_value v @ r3)"
    by (simp add: json_member_def json_string_def json_ws_def DQUOTE_def LF_def CR_def)
  have c: "dropWhile json_ws (json_value v @ r3) = json_value v @ r3"
    using v by simp
  have ws: "json_ws (CHR '' '')" "\<not> json_ws (CHR '':'')"
    by (simp_all add: json_ws_def LF_def CR_def)
  show ?thesis
    by (simp only: parse_members.simps a list.case parse_string_body_escaped)
       (simp add: ws c parse_value_json_value)
qed

lemma parse_member_step:
  "parse_members (Suc fuel) (json_member kv @ r3) acc =
     (case dropWhile json_ws r3 of
        [] \<Rightarrow> None
      | sep # r4 \<Rightarrow>
          if sep = CHR '','' then parse_members fuel r4 (acc @ [kv])
          else if sep = CHR ''}'' then Some (acc @ [kv], r4)
          else None)"
proof (cases kv)
  case (Pair k v)
  then show ?thesis by (simp only: parse_member_step_pair)
qed

lemma parse_members_json_members:
  "d \<noteq> [] \<Longrightarrow> length d \<le> fuel \<Longrightarrow>
     parse_members fuel (json_members d @ CHR ''}'' # rest) acc = Some (acc @ d, rest)"
proof (induction d arbitrary: fuel acc rule: json_members.induct)
  case 1
  then show ?case by simp
next
  case (2 kv)
  then obtain f where "fuel = Suc f" by (cases fuel) auto
  then show ?case
    by (simp add: parse_member_step json_ws_def LF_def CR_def del: parse_members.simps)
next
  case (3 kv v va)
  then obtain f where f: "fuel = Suc f" by (cases fuel) auto
  with "3.prems" have "length (v # va) \<le> f" by simp
  with "3.IH"[of f "acc @ [kv]"] have
    "parse_members f (json_members (v # va) @ CHR ''}'' # rest) (acc @ [kv])
       = Some (acc @ kv # v # va, rest)" by simp
  with f show ?case
    by (simp add: parse_member_step parse_members_skip_space json_ws_def LF_def CR_def
          del: parse_members.simps)
qed

lemma json_member_starts: "\<exists>xs. json_member kv = DQUOTE # xs"
  by (simp add: json_member_def json_string_def)

lemma json_members_starts: "d \<noteq> [] \<Longrightarrow> \<exists>xs. json_members d = DQUOTE # xs"
  using json_member_starts by (induction d rule: json_members.induct) (auto, (metis append_Cons)+)

lemma json_members_length: "length d \<le> length (json_members d)"
proof (induction d rule: json_members.induct)
  case 1
  then show ?case by simp
next
  case (2 kv)
  then show ?case using json_member_starts[of kv] by auto
next
  case (3 kv v va)
  then show ?case by simp
qed

lemma json_loads_flat_json_dumps: "json_loads_flat (json_dumps d) = Some d"
proof (cases "d = []")
  case True
  then show ?thesis by (simp add: json_loads_flat_def json_dumps_def json_ws_def LF_def CR_def)
next
  case False
  then obtain xs where xs: "json_members d = DQUOTE # xs" using json_members_starts by blast
  have len: "length d \<le> length (json_members d @ ''}'')"
    using json_members_length[of d] by simp
  have p: "parse_members (length (json_members d @ ''}'')) (json_members d @ CHR ''}'' # []) []
             = Some ([] @ d, [])"
    using parse_members_json_members[OF False len] by simp
  have w: "dropWhile json_ws (json_members d @ ''}'') = json_members d @ ''}''"
    using xs by (simp add: json_ws_def DQUOTE_def LF_def CR_def)
  have "json_loads_flat (CHR ''{'' # json_members d @ ''}'') = Some d"
    unfolding json_loads_flat_def
    using p xs by (simp add: json_ws_def DQUOTE_def LF_def CR_def)
  then show ?thesis by (simp add: json_dumps_def)
qed

text \<open>
  Every log that \<open>append_log\<close> has written ends with a line end: a write ends the file with
  \<open>\n\<close>, and no call, written or not, takes the line end away. So a log file that only
  \<open>append_log\<close> ever wrote, starting from no file, is absent or ends with a line end.
\<close>

lemma append_log_written_ends_with_line_end:
  assumes "log_enabled cfg"
  shows "\<exists>c. append_log cfg res True fs (log_file cfg) = Some c \<and> c \<noteq> [] \<and> last c = LF"
  using assms by (simp add: append_log_def)

lemma append_log_keeps_line_end:
  assumes "case fs path of None \<Rightarrow> True | Some old \<Rightarrow> ends_with_line_end old"
  shows "case append_log cfg res io_ok fs path of
           None \<Rightarrow> True | Some c \<Rightarrow> ends_with_line_end c"
  using assms by (auto simp: append_log_def ends_with_line_end_def split: option.splits)

lemma appended_logs_end_with_line_end:
  "case foldl (\<lambda>f (res, io_ok). append_log cfg res io_ok f) no_files writes path of
     None \<Rightarrow> True | Some c \<Rightarrow> ends_with_line_end c"
proof (induction writes rule: rev_induct)
  case Nil
  then show ?case by (simp add: no_files_def)
next
  case (snoc x xs)
  obtain res io_ok where x: "x = (res, io_ok)" by (cases x)
  from append_log_keeps_line_end[where cfg = cfg and res = res and io_ok = io_ok and path = path
         and fs = "foldl (\<lambda>f (res, io_ok). append_log cfg res io_ok f) no_files xs"]
       snoc.IH x
  show ?case by simp
qed

text \<open>
  Claim C6, as amended. If logging is enabled, the write and the read succeed, and the log
  file is absent, empty or ends with a line end (as every log written by \<open>append_log\<close>
  does), then \<open>append_log\<close> followed by \<open>read_last_logs(log_file, 1)\<close> yields exactly one
  record, whose ten fields equal those of the appended result.
\<close>

theorem append_then_read_last:
  assumes "log_enabled cfg"
    and "case fs (log_file cfg) of None \<Rightarrow> True | Some old \<Rightarrow> ends_with_line_end old"
  shows "\<exists>d. read_last_logs json_loads_flat True (append_log cfg res True fs) (log_file cfg) 1
               = [d]
           \<and> entry_matches d res"
proof -
  define old where "old = (case fs (log_file cfg) of None \<Rightarrow> [] | Some c \<Rightarrow> c)"
  have e: "ends_with_line_end old"
    using assms(2) by (auto simp: old_def ends_with_line_end_def split: option.splits)
  have c: "append_log cfg res True fs (log_file cfg)
             = Some (old @ json_dumps (log_entry res) @ [LF])"
    using assms(1) by (simp add: append_log_def old_def)
  have "read_last_logs json_loads_flat True (append_log cfg res True fs) (log_file cfg) 1
          = [log_entry res]"
    using read_appended_line[where loads = json_loads_flat and e = "log_entry res"
            and d = "log_entry res" and old = old] json_loads_flat_json_dumps e c
    by (simp add: read_last_logs_def py_slice_last_one)
  with log_entry_matches show ?thesis by blast
qed

theorem append_then_read_last_witness:
  "log_enabled default_config
   \<and> ends_with_line_end (json_dumps (log_entry first_record) @ [LF])
   \<and> read_last_logs json_loads_flat True
        (append_log default_config second_record True
           (one_file ''identity_history.log'' (json_dumps (log_entry first_record) @ [LF])))
        ''identity_history.log'' 1 = [log_entry second_record]
   \<and> entry_matches (log_entry second_record) second_record"
proof -
  let ?fs = "one_file ''identity_history.log'' (json_dumps (log_entry first_record) @ [LF])"
  have h1: "log_enabled default_config" by (simp add: default_config_def)
  have e: "ends_with_line_end (json_dumps (log_entry first_record) @ [LF])"
    by (simp add: ends_with_line_end_def)
  have h3: "case ?fs (log_file default_config) of None \<Rightarrow> True | Some old \<Rightarrow> ends_with_line_end old"
    using e by (simp add: one_file_def default_config_def)
  have r: "read_last_logs json_loads_flat True
        (append_log default_config second_record True ?fs) ''identity_history.log'' 1
          = [log_entry second_record]"
    by code_simp
  from append_then_read_last[where cfg = default_config
         and res = second_record and fs = ?fs, OF h1 h3] h1 e r show ?thesis
    by (simp add: default_config_def)
qed

text \<open>
  A log whose last line has no line end: the appended record continues that line, the line
  no longer decodes, and \<open>read_last_logs(log_file, 1)\<close> returns nothing.
\<close>

theorem append_after_unterminated_line_is_lost:
  "log_enabled default_config
   \<and> json_loads_flat (json_dumps (log_entry second_record)) = Some (log_entry second_record)
   \<and> read_last_logs json_loads_flat True
        (append_log default_config second_record True
           (one_file ''identity_history.log'' (json_dumps (log_entry first_record))))
        ''identity_history.log'' 1 = []"
  by code_simp

text \<open>
  Claim C7. \<open>clear_logs\<close> returns a boolean in every case: \<open>True\<close> when there was no file
  or the removal succeeded, \<open>False\<close> when the removal raised, and then the file system is
  unchanged. After it returned \<open>True\<close> the log file is absent and \<open>read_last_logs\<close> returns
  the empty list for every limit.
\<close>

theorem clear_then_read_empty:
  "(fst (clear_logs io_ok fs path) \<longleftrightarrow> fs path = None \<or> io_ok)
   \<and> (fst (clear_logs io_ok fs path) \<longrightarrow>
        snd (clear_logs io_ok fs path) path = None
        \<and> (\<forall>n. read_last_logs loads io_ok' (snd (clear_logs io_ok fs path)) path n = []))
   \<and> (\<not> fst (clear_logs io_ok fs path) \<longrightarrow> snd (clear_logs io_ok fs path) = fs)"
  by (auto simp: clear_logs_def read_last_logs_def split: option.splits)

theorem clear_then_read_empty_witness:
  "fst (clear_logs True (one_file ''identity_history.log''
                           (json_dumps (log_entry first_record) @ [LF])) ''identity_history.log'')
   \<and> read_last_logs json_loads_flat True
        (snd (clear_logs True (one_file ''identity_history.log''
                                 (json_dumps (log_entry first_record) @ [LF]))
                ''identity_history.log''))
        ''identity_history.log'' 50 = []
   \<and> \<not> fst (clear_logs False (one_file ''identity_history.log''
                           (json_dumps (log_entry first_record) @ [LF])) ''identity_history.log'')"
proof -
  let ?fs = "one_file ''identity_history.log'' (json_dumps (log_entry first_record) @ [LF])"
  have a: "fst (clear_logs True ?fs ''identity_history.log'')"
    by (simp add: clear_logs_def one_file_def)
  have b: "\<not> fst (clear_logs False ?fs ''identity_history.log'')"
    by (simp add: clear_logs_def one_file_def)
  from clear_then_read_empty[of True ?fs "''identity_history.log''" json_loads_flat True] a
  have "read_last_logs json_loads_flat True (snd (clear_logs True ?fs ''identity_history.log''))
          ''identity_history.log'' 50 = []" by blast
  with a b show ?thesis by blast
qed

text \<open>
  Claim C10. On a path with no file \<open>clear_logs\<close> removes nothing and returns \<open>True\<close>. So
  after a first call that succeeds, a second call returns \<open>True\<close> as well, whether or not
  file operations would fail then, changes nothing, and leaves no records to read.
\<close>

theorem clear_logs_idempotent:
  "(fs path = None \<longrightarrow> clear_logs io_ok fs path = (True, fs))
   \<and> fst (clear_logs True fs path)
   \<and> clear_logs io_ok (snd (clear_logs True fs path)) path = (True, snd (clear_logs True fs path))
   \<and> read_last_logs loads io_ok' (snd (clear_logs io_ok (snd (clear_logs True fs path)) path)) path n
       = []"
  by (auto simp: clear_logs_def read_last_logs_def split: option.splits)

theorem clear_logs_idempotent_witness:
  "no_files ''identity_history.log'' = None
   \<and> clear_logs True no_files ''identity_history.log'' = (True, no_files)
   \<and> fst (clear_logs True (one_file ''identity_history.log''
                           (json_dumps (log_entry first_record) @ [LF])) ''identity_history.log'')
   \<and> fst (clear_logs True
            (snd (clear_logs True (one_file ''identity_history.log''
                           (json_dumps (log_entry first_record) @ [LF])) ''identity_history.log''))
            ''identity_history.log'')"
proof -
  let ?fs = "one_file ''identity_history.log'' (json_dumps (log_entry first_record) @ [LF])"
  have h: "no_files ''identity_history.log'' = None" by (simp add: no_files_def)
  from clear_logs_idempotent[of no_files "''identity_history.log''" True json_loads_flat True 1] h
  have a: "clear_logs True no_files ''identity_history.log'' = (True, no_files)" by blast
  from clear_logs_idempotent[of ?fs "''identity_history.log''" True json_loads_flat True 1]
  have b: "fst (clear_logs True ?fs ''identity_history.log'')"
    and c: "clear_logs True (snd (clear_logs True ?fs ''identity_history.log'')) ''identity_history.log''
             = (True, snd (clear_logs True ?fs ''identity_history.log''))" by blast+
  from h a b c show ?thesis by simp
qed

section \<open>The reputation check\<close>

text \<open>
  \<open>check_url_reputation\<close> returns no result exactly when the submission is answered with
  status 200 and an identifier, and the analysis request with a status other than 200.
\<close>

lemma check_url_reputation_none_iff:
  "check_url_reputation u api_key submission analysis now = None \<longleftrightarrow>
     api_key \<noteq> [] \<and> u \<noteq> []
     \<and> (\<exists>analysis_id status body.
           submission = HttpResponse 200 (Inr analysis_id)
           \<and> analysis analysis_id = HttpResponse status body \<and> status \<noteq> 200)"
  by (auto simp: check_url_reputation_def Let_def split: http.splits sum.splits)

text \<open>
  Claim C8. \<open>check_url_reputation\<close> is to return a \<open>URLReputationResult\<close> for every outcome
  of the two HTTP steps. When the submission succeeds and the analysis request is answered
  with status 404, the function reaches its end without a \<open>return\<close>: the result is \<open>None\<close>.
\<close>

theorem check_url_reputation_returns_nothing:
  "check_url_reputation ''http://example.com'' ''key''
     (HttpResponse 200 (Inr ''u-1234'')) analysis_not_found ''2026-01-01 00:00:00'' = None"
  by (simp add: check_url_reputation_def analysis_not_found_def)

end
